theory Spec2Isabelle
  imports Complex_Main
begin

section \<open>Fresnelier: Fresnel zone plate and photon sieve masks\<close>

text \<open>
  A shallow embedding of \<^verbatim>\<open>fresnelier.py\<close>.  Python floats are modelled as
  \<^typ>\<open>real\<close> (exact arithmetic, no rounding, no \<^verbatim>\<open>nan\<close>/\<^verbatim>\<open>inf\<close>), Python
  integers as \<^typ>\<open>int\<close>.  Where float arithmetic would produce \<^verbatim>\<open>nan\<close> or
  \<^verbatim>\<open>inf\<close> and the program then raises, the model returns an error.
\<close>

subsection \<open>Errors and numeric helpers\<close>

datatype error = ValueError | IndexError

text \<open>
  \<^verbatim>\<open>random.uniform(a, b)\<close> is \<^verbatim>\<open>a + (b - a) * random()\<close>; the argument \<open>u\<close> is the
  value of \<^verbatim>\<open>random()\<close>, a number in \<open>[0, 1)\<close>.
\<close>

definition uniform :: "real \<Rightarrow> real \<Rightarrow> real \<Rightarrow> real" where
  "uniform a b u = a + (b - a) * u"

text \<open>
  The process-wide random source: the sequence of values that successive calls of
  \<^verbatim>\<open>random()\<close> return.  The generators thread the index of the next unused value.
\<close>

type_synonym rng = "nat \<Rightarrow> real"

definition valid_rng :: "rng \<Rightarrow> bool" where
  "valid_rng rnd \<longleftrightarrow> (\<forall>i. 0 \<le> rnd i \<and> rnd i < 1)"

text \<open>Python's \<^verbatim>\<open>int(x)\<close> on a float truncates toward zero.\<close>

definition py_int :: "real \<Rightarrow> int" where
  "py_int r = (if 0 \<le> r then \<lfloor>r\<rfloor> else \<lceil>r\<rceil>)"

text \<open>\<^verbatim>\<open>np.diff(radii)\<close>: consecutive differences.\<close>

definition np_diff :: "real list \<Rightarrow> real list" where
  "np_diff rs = map (\<lambda>i. rs ! Suc i - rs ! i) [0..<length rs - 1]"

text \<open>Python's \<^verbatim>\<open>min(xs)\<close>: raises \<^verbatim>\<open>ValueError\<close> on an empty sequence.\<close>

definition py_min :: "real list \<Rightarrow> error + real" where
  "py_min xs = (case xs of [] \<Rightarrow> Inl ValueError | x # ys \<Rightarrow> Inr (fold min ys x))"

subsection \<open>Unit conversion\<close>

text \<open>\<^verbatim>\<open>convert_units(value, unit)\<close>, lines 7-19.\<close>

definition convert_units :: "real \<Rightarrow> string \<Rightarrow> error + real" where
  "convert_units v unit =
     (if unit = ''m'' then Inr v
      else if unit = ''cm'' then Inr (v / 100)
      else if unit = ''mm'' then Inr (v / 1000)
      else if unit = ''um'' then Inr (v / 1000000)
      else if unit = ''nm'' then Inr (v / 1000000000)
      else Inl ValueError)"

subsection \<open>Radius sequence (lines 24 and 56)\<close>

text \<open>The expression under the square root for ring index \<open>n\<close>.\<close>

definition radicand :: "real \<Rightarrow> real \<Rightarrow> int \<Rightarrow> real" where
  "radicand wavelength focal_length n =
     of_int n * wavelength * focal_length + (of_int n)\<^sup>2 * wavelength\<^sup>2 / 4"

text \<open>
  \<^verbatim>\<open>radii = [np.sqrt(n * wavelength * focal_length + (n ** 2) * (wavelength ** 2) / 4)
            for n in range(1, num_rings + 1)]\<close>
\<close>

definition ring_radii :: "real \<Rightarrow> real \<Rightarrow> int \<Rightarrow> real list" where
  "ring_radii wavelength focal_length num_rings =
     map (\<lambda>n. sqrt (radicand wavelength focal_length n)) [1..num_rings]"

subsection \<open>Canvas sizing (lines 27-33 and 59-65)\<close>

definition min_ring_thickness_px :: int where
  "min_ring_thickness_px = 8"

text \<open>
  Both generators size the canvas with the same five lines.  The result is
  \<open>(image_size, radii)\<close> with the radii rescaled to pixels.  A zero minimum gap
  makes the float division yield \<^verbatim>\<open>inf\<close>/\<^verbatim>\<open>nan\<close>, on which \<^verbatim>\<open>int\<close> raises.
\<close>

definition canvas :: "real list \<Rightarrow> error + (int \<times> real list)" where
  "canvas radii =
     (case py_min (np_diff radii) of
        Inl e \<Rightarrow> Inl e
      | Inr min_ring_thickness \<Rightarrow>
          if min_ring_thickness = 0 \<or> last radii = 0 then Inl ValueError
          else
            let image_size =
                  py_int ((of_int min_ring_thickness_px / min_ring_thickness) * last radii * 2)
            in Inr (image_size,
                    map (\<lambda>r. (r / last radii) * of_int (image_size div 2)) radii))"

text \<open>A radius sequence as the data model describes it.\<close>

definition valid_radii :: "real list \<Rightarrow> bool" where
  "valid_radii rs \<longleftrightarrow> 2 \<le> length rs \<and> 0 < hd rs \<and> sorted_wrt (<) rs"

text \<open>The smallest gap between consecutive radii.\<close>

definition min_gap :: "real list \<Rightarrow> real" where
  "min_gap rs = Min (set (np_diff rs))"

subsection \<open>Images\<close>

text \<open>
  A square \<^verbatim>\<open>image_size \<times> image_size\<close> array of 0/1 values; \<open>img y x\<close> is
  \<^verbatim>\<open>image[y, x]\<close>.  Only the coordinates \<open>0 \<le> y, x < image_size\<close> belong to the array.
\<close>

type_synonym image = "int \<Rightarrow> int \<Rightarrow> nat"

record ndarray =
  side :: int
  pixels :: image

definition in_canvas :: "int \<Rightarrow> int \<Rightarrow> int \<Rightarrow> bool" where
  "in_canvas image_size y x \<longleftrightarrow> 0 \<le> y \<and> y < image_size \<and> 0 \<le> x \<and> x < image_size"

text \<open>\<^verbatim>\<open>np.zeros((image_size, image_size))\<close>: a negative size raises.\<close>

definition np_zeros :: "int \<Rightarrow> error + image" where
  "np_zeros image_size = (if image_size < 0 then Inl ValueError else Inr (\<lambda>y x. 0))"

text \<open>
  \<^verbatim>\<open>image[:, [0, -1]] = 0; image[[0, -1], :] = 0\<close>: first and last column, then first
  and last row.  On an empty array index 0 is out of bounds.
\<close>

definition set_border :: "int \<Rightarrow> image \<Rightarrow> error + image" where
  "set_border image_size img =
     (if image_size \<le> 0 then Inl IndexError
      else Inr (\<lambda>y x. if x = 0 \<or> x = image_size - 1 \<or> y = 0 \<or> y = image_size - 1
                       then 0 else img y x))"

subsection \<open>Fresnel zone plate (lines 21-51)\<close>

text \<open>\<^verbatim>\<open>distance = np.sqrt((x - center) ** 2 + (y - center) ** 2)\<close>\<close>

definition distance :: "int \<Rightarrow> int \<Rightarrow> int \<Rightarrow> real" where
  "distance center y x = sqrt (of_int ((x - center)\<^sup>2 + (y - center)\<^sup>2))"

text \<open>
  One iteration of the loop over \<^verbatim>\<open>k in range(num_rings)\<close>:
  \<^verbatim>\<open>if k % 2 == 1: image[(distance >= radii[k-1]) & (distance < radii[k])] = 1\<close>
\<close>

definition fill_ring :: "int \<Rightarrow> real list \<Rightarrow> nat \<Rightarrow> image \<Rightarrow> image" where
  "fill_ring image_size radii k img =
     (if k mod 2 = 1
      then (\<lambda>y x. if in_canvas image_size y x
                      \<and> radii ! (k - 1) \<le> distance (image_size div 2) y x
                      \<and> distance (image_size div 2) y x < radii ! k
                 then 1 else img y x)
      else img)"

text \<open>Lines 36-51, given the canvas.\<close>

definition zone_plate :: "int \<Rightarrow> real list \<Rightarrow> int \<Rightarrow> error + ndarray" where
  "zone_plate image_size radii num_rings =
     (case np_zeros image_size of
        Inl e \<Rightarrow> Inl e
      | Inr image0 \<Rightarrow>
          (case set_border image_size
                  (fold (fill_ring image_size radii) [0..<nat num_rings] image0) of
             Inl e \<Rightarrow> Inl e
           | Inr img \<Rightarrow> Inr \<lparr>side = image_size, pixels = img\<rparr>))"

text \<open>
  A negative radicand makes \<^verbatim>\<open>np.sqrt\<close> return \<^verbatim>\<open>nan\<close>; it then is the first
  radius, the minimum of the differences is \<^verbatim>\<open>nan\<close>, and \<^verbatim>\<open>int\<close> raises.
\<close>

definition generate_fresnel_zone_plate :: "real \<Rightarrow> real \<Rightarrow> int \<Rightarrow> error + ndarray" where
  "generate_fresnel_zone_plate wavelength focal_length num_rings =
     (if list_ex (\<lambda>n. radicand wavelength focal_length n < 0) [1..num_rings]
      then Inl ValueError
      else case canvas (ring_radii wavelength focal_length num_rings) of
             Inl e \<Rightarrow> Inl e
           | Inr (image_size, radii) \<Rightarrow> zone_plate image_size radii num_rings)"

subsection \<open>Photon sieve (lines 53-130)\<close>

text \<open>
  Lines 72-76: \<^verbatim>\<open>mask = x**2 + y**2 <= radius_outer**2; image[mask] = 0\<close>, with
  \<^verbatim>\<open>x\<close>, \<^verbatim>\<open>y\<close> the offsets from the centre.
\<close>

definition clear_center :: "int \<Rightarrow> real \<Rightarrow> image \<Rightarrow> image" where
  "clear_center image_size radius_outer img =
     (\<lambda>y x. if in_canvas image_size y x
               \<and> of_int ((x - image_size div 2)\<^sup>2 + (y - image_size div 2)\<^sup>2) \<le> radius_outer\<^sup>2
            then 0 else img y x)"

text \<open>Line 85.\<close>

definition dot_radius_of :: "real \<Rightarrow> int" where
  "dot_radius_of ring_thickness =
     max (py_int (ring_thickness / 2)) (min_ring_thickness_px div 2)"

text \<open>Lines 86-94; \<open>u\<close> is the value of \<^verbatim>\<open>random()\<close> used by the random branch.\<close>

definition num_dots_of :: "bool \<Rightarrow> real \<Rightarrow> int \<Rightarrow> real \<Rightarrow> int" where
  "num_dots_of random_spacing u dot_radius radius_outer =
     (let dot_spacing_min = of_int dot_radius * 3;
          dot_spacing_max = of_int dot_radius * 4;
          dot_spacing_min_rand = of_int dot_radius * (11 / 10);
          dot_spacing_max_rand = of_int dot_radius * 4;
          circumference = 2 * pi * radius_outer
      in if random_spacing
         then max 1 (py_int (circumference /
                 ((dot_spacing_min_rand + dot_spacing_max_rand) * uniform (13 / 10) (15 / 10) u)))
         else max 1 (py_int (circumference / ((dot_spacing_min + dot_spacing_max) / 2))))"

text \<open>Line 95: \<^verbatim>\<open>np.linspace(0, 2 * np.pi, num_dots, endpoint=False)\<close>.\<close>

definition np_linspace :: "int \<Rightarrow> real list" where
  "np_linspace num_dots = map (\<lambda>i. of_nat i * (2 * pi / of_int num_dots)) [0..<nat num_dots]"

text \<open>
  Lines 101-102 and 115-116: the pixel of the dot centre for an angle, on the
  circle through the middle of the ring.
\<close>

definition dot_x :: "int \<Rightarrow> real \<Rightarrow> real \<Rightarrow> real \<Rightarrow> int" where
  "dot_x center radius_inner ring_thickness a =
     center + py_int ((radius_inner + ring_thickness / 2) * cos a)"

definition dot_y :: "int \<Rightarrow> real \<Rightarrow> real \<Rightarrow> real \<Rightarrow> int" where
  "dot_y center radius_inner ring_thickness a =
     center + py_int ((radius_inner + ring_thickness / 2) * sin a)"

text \<open>
  \<^verbatim>\<open>rr, cc = np.ogrid[-dot_radius:dot_radius, -dot_radius:dot_radius]\<close> and
  \<^verbatim>\<open>mask = rr**2 + cc**2 <= dot_radius**2\<close>: entry \<open>(i, j)\<close> of the mask, for
  \<open>0 \<le> i, j < 2 * dot_radius\<close>, where \<open>rr = i - dot_radius\<close> and \<open>cc = j - dot_radius\<close>.
\<close>

definition disk_mask :: "int \<Rightarrow> int \<Rightarrow> int \<Rightarrow> bool" where
  "disk_mask dot_radius i j \<longleftrightarrow>
     (i - dot_radius)\<^sup>2 + (j - dot_radius)\<^sup>2 \<le> dot_radius\<^sup>2"

text \<open>
  Lines 106-112 and 118-124: the mask is cut to the shape of the image slice
  (\<^verbatim>\<open>mask[:h, :w]\<close>, its first rows and columns) and the slice is set to 1 under it.
\<close>

definition stamp_dot :: "int \<Rightarrow> int \<Rightarrow> int \<Rightarrow> int \<Rightarrow> image \<Rightarrow> image" where
  "stamp_dot image_size dot_radius x y img =
     (let y_min = max 0 (y - dot_radius); y_max = min image_size (y + dot_radius);
          x_min = max 0 (x - dot_radius); x_max = min image_size (x + dot_radius)
      in (\<lambda>py px. if y_min \<le> py \<and> py < y_max \<and> x_min \<le> px \<and> px < x_max
                       \<and> disk_mask dot_radius (py - y_min) (px - x_min)
                    then 1 else img py px))"

text \<open>
  Lines 100-105, the \<^verbatim>\<open>while True\<close> loop.  The state is the current
  \<^verbatim>\<open>random_angle\<close> and the index of the next random value; the loop returns its
  state at the \<^verbatim>\<open>break\<close>, and \<open>None\<close> stands for a loop that never leaves.
\<close>

partial_function (option) find_open ::
  "rng \<Rightarrow> image \<Rightarrow> int \<Rightarrow> real \<Rightarrow> real \<Rightarrow> int \<Rightarrow> real \<times> nat \<Rightarrow> (real \<times> nat) option" where
  "find_open rnd img image_size radius_inner ring_thickness num_dots st =
     (let x = dot_x (image_size div 2) radius_inner ring_thickness (fst st);
          y = dot_y (image_size div 2) radius_inner ring_thickness (fst st)
      in if in_canvas image_size y x \<and> img y x = 0 then Some st
         else find_open rnd img image_size radius_inner ring_thickness num_dots
                (fst st + uniform 0 (pi / of_int num_dots) (rnd (snd st)), Suc (snd st)))"

text \<open>Lines 97-124, the body of \<^verbatim>\<open>for angle in angles\<close>.\<close>

definition place_dot ::
  "bool \<Rightarrow> rng \<Rightarrow> int \<Rightarrow> real \<Rightarrow> real \<Rightarrow> int \<Rightarrow> int \<Rightarrow> real \<Rightarrow> image \<times> nat
     \<Rightarrow> (image \<times> nat) option" where
  "place_dot random_spacing rnd image_size radius_inner ring_thickness dot_radius num_dots angle st =
     (if random_spacing
      then (case find_open rnd (fst st) image_size radius_inner ring_thickness num_dots
                   (angle + uniform 0 (pi / of_int num_dots) (rnd (snd st)), Suc (snd st)) of
              None \<Rightarrow> None
            | Some (random_angle, i) \<Rightarrow>
                let x = dot_x (image_size div 2) radius_inner ring_thickness random_angle;
                    y = dot_y (image_size div 2) radius_inner ring_thickness random_angle;
                    img1 = stamp_dot image_size dot_radius x y (fst st)
                in Some (if in_canvas image_size y x
                         then stamp_dot image_size dot_radius x y img1 else img1, i))
      else
        let random_angle = angle;
            x = dot_x (image_size div 2) radius_inner ring_thickness random_angle;
            y = dot_y (image_size div 2) radius_inner ring_thickness random_angle
        in Some (if in_canvas image_size y x
                 then stamp_dot image_size dot_radius x y (fst st) else fst st, snd st))"

text \<open>A \<^verbatim>\<open>for\<close> loop whose body may fail to return.\<close>

fun for_each :: "('a \<Rightarrow> 's \<Rightarrow> 's option) \<Rightarrow> 'a list \<Rightarrow> 's \<Rightarrow> 's option" where
  "for_each body [] s = Some s"
| "for_each body (a # as) s =
     (case body a s of None \<Rightarrow> None | Some s' \<Rightarrow> for_each body as s')"

text \<open>Lines 80-124, the body of \<^verbatim>\<open>for k in range(1, num_rings, 2)\<close>.\<close>

definition sieve_ring ::
  "bool \<Rightarrow> rng \<Rightarrow> int \<Rightarrow> real list \<Rightarrow> nat \<Rightarrow> image \<times> nat \<Rightarrow> (image \<times> nat) option" where
  "sieve_ring random_spacing rnd image_size radii k st =
     (let radius_inner = radii ! (k - 1);
          radius_outer = radii ! k;
          ring_thickness = radius_outer - radius_inner;
          dot_radius = dot_radius_of ring_thickness;
          num_dots = num_dots_of random_spacing (rnd (snd st)) dot_radius radius_outer;
          i = (if random_spacing then Suc (snd st) else snd st)
      in for_each
           (place_dot random_spacing rnd image_size radius_inner ring_thickness dot_radius num_dots)
           (np_linspace num_dots) (fst st, i))"

text \<open>Lines 68-130, given the canvas.\<close>

definition photon_sieve ::
  "bool \<Rightarrow> rng \<Rightarrow> int \<Rightarrow> real list \<Rightarrow> int \<Rightarrow> (error + ndarray) option" where
  "photon_sieve random_spacing rnd image_size radii num_rings =
     (case np_zeros image_size of
        Inl e \<Rightarrow> Some (Inl e)
      | Inr image0 \<Rightarrow>
          (case for_each (sieve_ring random_spacing rnd image_size radii)
                  (filter odd [1..<nat num_rings])
                  (clear_center image_size (radii ! 0) image0, 0) of
             None \<Rightarrow> None
           | Some st \<Rightarrow>
               Some (case set_border image_size (fst st) of
                       Inl e \<Rightarrow> Inl e
                     | Inr img \<Rightarrow> Inr \<lparr>side = image_size, pixels = img\<rparr>)))"

definition generate_photon_sieve ::
  "real \<Rightarrow> real \<Rightarrow> int \<Rightarrow> bool \<Rightarrow> rng \<Rightarrow> (error + ndarray) option" where
  "generate_photon_sieve wavelength focal_length num_rings random_spacing rnd =
     (if list_ex (\<lambda>n. radicand wavelength focal_length n < 0) [1..num_rings]
      then Some (Inl ValueError)
      else case canvas (ring_radii wavelength focal_length num_rings) of
             Inl e \<Rightarrow> Some (Inl e)
           | Inr (image_size, radii) \<Rightarrow>
               photon_sieve random_spacing rnd image_size radii num_rings)"

subsection \<open>The command line (lines 132-162)\<close>

record args =
  arg_wavelength :: real
  arg_wavelength_unit :: string
  arg_focal_length :: real
  arg_focal_length_unit :: string
  arg_num_rings :: int
  arg_generate :: string

text \<open>Lines 148-153: what \<^verbatim>\<open>main\<close> does with the parameters before it generates.\<close>

definition main_params :: "args \<Rightarrow> error + (real \<times> real \<times> int)" where
  "main_params a =
     (case convert_units (arg_wavelength a) (arg_wavelength_unit a) of
        Inl e \<Rightarrow> Inl e
      | Inr wavelength \<Rightarrow>
          (case convert_units (arg_focal_length a) (arg_focal_length_unit a) of
             Inl e \<Rightarrow> Inl e
           | Inr focal_length \<Rightarrow>
               if arg_num_rings a \<le> 1 then Inl ValueError
               else Inr (wavelength, focal_length, arg_num_rings a)))"

text \<open>
  Lines 155-162: the dictionary \<^verbatim>\<open>images\<close>, in insertion order.  An exception of a
  generator ends the run.
\<close>

definition add_image ::
  "bool \<Rightarrow> string \<Rightarrow> (error + ndarray) option \<Rightarrow> (error + (string \<times> ndarray) list) option
     \<Rightarrow> (error + (string \<times> ndarray) list) option" where
  "add_image requested title gen acc =
     (case acc of
        None \<Rightarrow> None
      | Some (Inl e) \<Rightarrow> Some (Inl e)
      | Some (Inr images) \<Rightarrow>
          if \<not> requested then Some (Inr images)
          else (case gen of
                  None \<Rightarrow> None
                | Some (Inl e) \<Rightarrow> Some (Inl e)
                | Some (Inr m) \<Rightarrow> Some (Inr (images @ [(title, m)]))))"

definition main :: "rng \<Rightarrow> args \<Rightarrow> (error + (string \<times> ndarray) list) option" where
  "main rnd a =
     (case main_params a of
        Inl e \<Rightarrow> Some (Inl e)
      | Inr (wavelength, focal_length, num_rings) \<Rightarrow>
          add_image (CHR ''r'' \<in> set (arg_generate a)) ''random_photon_sieve''
            (generate_photon_sieve wavelength focal_length num_rings True rnd)
            (add_image (CHR ''p'' \<in> set (arg_generate a)) ''photon_sieve''
               (generate_photon_sieve wavelength focal_length num_rings False rnd)
               (add_image (CHR ''f'' \<in> set (arg_generate a)) ''fresnel_zone_plate''
                  (Some (generate_fresnel_zone_plate wavelength focal_length num_rings))
                  (Some (Inr [])))))"

subsection \<open>Vocabulary of the properties\<close>

text \<open>The first and last row and column of the image.\<close>

definition on_border :: "int \<Rightarrow> int \<Rightarrow> int \<Rightarrow> bool" where
  "on_border image_size y x \<longleftrightarrow> x = 0 \<or> x = image_size - 1 \<or> y = 0 \<or> y = image_size - 1"

text \<open>A distance that lies in the band of an odd ring index \<open>k < num_rings\<close>.\<close>

definition in_odd_band :: "real list \<Rightarrow> int \<Rightarrow> real \<Rightarrow> bool" where
  "in_odd_band radii num_rings d \<longleftrightarrow>
     (\<exists>k. odd k \<and> k < nat num_rings \<and> radii ! (k - 1) \<le> d \<and> d < radii ! k)"

text \<open>The unit names that the argument parser accepts (lines 135 and 137).\<close>

definition unit_choices :: "string list" where
  "unit_choices = [''m'', ''cm'', ''mm'', ''um'', ''nm'']"

text \<open>Command lines used as examples.\<close>

definition negative_args :: args where
  "negative_args = \<lparr>arg_wavelength = - 14, arg_wavelength_unit = ''m'',
     arg_focal_length = - (120 / 7), arg_focal_length_unit = ''m'',
     arg_num_rings = 2, arg_generate = ''f''\<rparr>"

definition one_ring_args :: args where
  "one_ring_args = \<lparr>arg_wavelength = 500, arg_wavelength_unit = ''nm'',
     arg_focal_length = 10, arg_focal_length_unit = ''cm'',
     arg_num_rings = 1, arg_generate = ''fpr''\<rparr>"

text \<open>A random source for examples: the first value is 3/4, all later ones are 0.\<close>

definition example_rng :: rng where
  "example_rng = (\<lambda>i. if i = 0 then 3 / 4 else 0)"

text \<open>
  The four dots that the random sieve stamps for wavelength 14, focal length 120/7, two
  rings and the random source \<open>example_rng\<close>, and the mask it returns.
\<close>

definition example_dots :: image where
  "example_dots =
     stamp_dot 46 4 23 4 (stamp_dot 46 4 4 23 (stamp_dot 46 4 23 42
       (stamp_dot 46 4 42 23 (\<lambda>y x. 0))))"

definition example_sieve :: ndarray where
  "example_sieve =
     \<lparr>side = 46,
      pixels = (\<lambda>y x. if x = 0 \<or> x = 46 - 1 \<or> y = 0 \<or> y = 46 - 1 then 0
                      else example_dots y x)\<rparr>"

text \<open>
  What the properties of the photon sieve use of a canvas: at least two radii, strictly
  increasing from a positive first one, the last one equal to the centre coordinate,
  and every ring more than 7 pixels thick.
\<close>

definition scaled_ok :: "int \<Rightarrow> real list \<Rightarrow> bool" where
  "scaled_ok image_size radii \<longleftrightarrow>
     0 < image_size \<and> 2 \<le> length radii \<and> sorted_wrt (<) radii \<and> 0 < radii ! 0
     \<and> last radii = of_int (image_size div 2)
     \<and> (\<forall>i. Suc i < length radii \<longrightarrow> 7 < radii ! Suc i - radii ! i)"

text \<open>No opaque pixel closer to the centre than \<open>bound\<close>.\<close>

definition clear_within :: "int \<Rightarrow> real \<Rightarrow> image \<Rightarrow> bool" where
  "clear_within center bound img \<longleftrightarrow> (\<forall>y x. img y x \<noteq> 0 \<longrightarrow> bound < distance center y x)"

text \<open>An all-zero image, and a random source that always returns 1/2.\<close>

definition blank_image :: image where
  "blank_image = (\<lambda>y x. 0)"


section \<open>Properties\<close>

subsection \<open>Evaluation helpers\<close>

lemma sqrt_sq: "0 \<le> r \<Longrightarrow> x = r * r \<Longrightarrow> sqrt x = r"
  by (simp add: real_sqrt_mult)

lemma radii_example: "ring_radii 14 (120 / 7) 2 = [17, 26]"
  by (simp add: ring_radii_def radicand_def upto_rec1 sqrt_sq[of 17] sqrt_sq[of 26])

lemma canvas_example: "canvas [17, 26] = Inr (46, [391 / 26, 23])"
  by (simp add: canvas_def py_min_def np_diff_def min_ring_thickness_px_def py_int_def Let_def)

subsection \<open>Radius sequence\<close>

lemma radicand_mono:
  assumes "0 < wl" "0 < fl" "1 \<le> i" "i < j"
  shows "radicand wl fl i < radicand wl fl j"
proof -
  have a: "of_int i * wl * fl < of_int j * wl * fl"
    using assms by simp
  have "(of_int i :: real)\<^sup>2 < (of_int j)\<^sup>2"
    using assms by (simp add: power_strict_mono)
  then have b: "(of_int i)\<^sup>2 * wl\<^sup>2 / 4 < (of_int j)\<^sup>2 * wl\<^sup>2 / 4"
    using assms by simp
  show ?thesis unfolding radicand_def using a b by linarith
qed

lemma sorted_wrt_ring_radii:
  assumes "0 < wl" "0 < fl"
  shows "sorted_wrt (<) (ring_radii wl fl n)"
  unfolding ring_radii_def sorted_wrt_map
  by (rule sorted_wrt_mono_rel[where P="(<)"]) (auto simp: radicand_mono assms)



subsection \<open>Canvas sizing\<close>

lemma valid_radii_pos:
  assumes "valid_radii rs" "i < length rs"
  shows "0 < rs ! i"
proof (cases i)
  case 0
  then show ?thesis using assms by (cases rs) (auto simp: valid_radii_def)
next
  case (Suc j)
  have "rs ! 0 < rs ! i"
    using assms Suc by (auto simp: valid_radii_def sorted_wrt_iff_nth_less)
  moreover have "0 < rs ! 0"
    using assms by (cases rs) (auto simp: valid_radii_def)
  ultimately show ?thesis by simp
qed

lemma np_diff_nonempty: "valid_radii rs \<Longrightarrow> np_diff rs \<noteq> []"
  by (auto simp: valid_radii_def np_diff_def)

lemma np_diff_pos:
  assumes "valid_radii rs" "d \<in> set (np_diff rs)"
  shows "0 < d"
  using assms by (auto simp: valid_radii_def np_diff_def sorted_wrt_iff_nth_less)

lemma py_min_Min:
  assumes "xs \<noteq> []"
  shows "py_min xs = Inr (Min (set xs))"
proof (cases xs)
  case Nil
  then show ?thesis using assms by simp
next
  case (Cons a list)
  then show ?thesis using Min.set_eq_fold[of a list] by (simp add: py_min_def)
qed

lemma min_gap_pos: "valid_radii rs \<Longrightarrow> 0 < min_gap rs"
  unfolding min_gap_def using np_diff_pos np_diff_nonempty
  by (metis List.finite_set Min_in set_empty)

lemma last_pos: "valid_radii rs \<Longrightarrow> 0 < last rs"
  using valid_radii_pos[of rs "length rs - 1"]
  by (cases "rs = []") (auto simp: last_conv_nth valid_radii_def)

lemma min_gap_less_last:
  assumes "valid_radii rs"
  shows "min_gap rs < last rs"
proof -
  let ?n = "length rs"
  have n: "2 \<le> ?n" using assms by (simp add: valid_radii_def)
  have "rs ! Suc (?n - 2) - rs ! (?n - 2) \<in> set (np_diff rs)"
    unfolding np_diff_def using n by (auto intro!: image_eqI[where x="?n - 2"])
  then have "min_gap rs \<le> rs ! Suc (?n - 2) - rs ! (?n - 2)"
    unfolding min_gap_def by simp
  moreover have "0 < rs ! (?n - 2)" using valid_radii_pos[OF assms, of "?n - 2"] n by simp
  moreover have "last rs = rs ! Suc (?n - 2)"
    using n by (cases "rs = []") (auto simp: last_conv_nth Suc_diff_Suc numeral_2_eq_2)
  ultimately show ?thesis by simp
qed

lemma canvas_valid:
  assumes "valid_radii rs"
  shows "canvas rs = Inr (\<lfloor>(8 / min_gap rs) * last rs * 2\<rfloor>,
            map (\<lambda>r. (r / last rs) * of_int (\<lfloor>(8 / min_gap rs) * last rs * 2\<rfloor> div 2)) rs)"
proof -
  have "0 \<le> (8 / min_gap rs) * last rs * 2"
    using min_gap_pos[OF assms] last_pos[OF assms] by simp
  then show ?thesis
    using min_gap_pos[OF assms] last_pos[OF assms] np_diff_nonempty[OF assms]
    by (simp add: canvas_def py_min_Min min_gap_def[symmetric] py_int_def
        min_ring_thickness_px_def Let_def)
qed



lemma np_diff_map_scale:
  "np_diff (map (\<lambda>r. (r / l) * c) rs) = map (\<lambda>d. (d / l) * c) (np_diff rs)"
  by (auto simp: np_diff_def algebra_simps diff_divide_distrib)

lemma min_gap_scale:
  assumes "np_diff rs \<noteq> []" "0 \<le> c" "0 < l"
  shows "min_gap (map (\<lambda>r. (r / l) * c) rs) = (min_gap rs / l) * c"
proof -
  have m: "mono (\<lambda>d::real. (d / l) * c)"
    using assms by (auto intro!: monoI mult_right_mono divide_right_mono)
  show ?thesis
    unfolding min_gap_def np_diff_map_scale set_map
    using mono_Min_commute[OF m, of "set (np_diff rs)"] assms by simp
qed

lemma half_floor_double: "\<lfloor>x * 2\<rfloor> div 2 = \<lfloor>x :: real\<rfloor>"
  using floor_divide_real_eq_div[of 2 "x * 2"] by simp

lemma canvas_thickness_bounds:
  assumes "valid_radii radii" "canvas radii = Inr (image_size, scaled)"
  shows "7 < min_gap scaled \<and> min_gap scaled \<le> 8
       \<and> of_int image_size * min_gap radii \<le> 16 * last radii
       \<and> 16 * last radii < (of_int image_size + 1) * min_gap radii"
proof -
  define m where "m = min_gap radii"
  define l where "l = last radii"
  define X where "X = 8 * l / m"
  have m: "0 < m" unfolding m_def by (rule min_gap_pos[OF assms(1)])
  have l: "0 < l" unfolding l_def by (rule last_pos[OF assms(1)])
  have ml: "m < l" unfolding m_def l_def by (rule min_gap_less_last[OF assms(1)])
  have X8: "8 < X" unfolding X_def using m ml by (simp add: pos_less_divide_eq)
  have e: "(8 / m) * l * 2 = X * 2" unfolding X_def by simp
  have cv: "canvas radii = Inr (\<lfloor>X * 2\<rfloor>, map (\<lambda>r. (r / l) * of_int (\<lfloor>X * 2\<rfloor> div 2)) radii)"
    using canvas_valid[OF assms(1)] unfolding m_def[symmetric] l_def[symmetric] e .
  have sz: "image_size = \<lfloor>X * 2\<rfloor>"
    by (metis assms(2) cv sum.inject(2) prod.inject)
  have sc: "scaled = map (\<lambda>r. (r / l) * of_int (\<lfloor>X * 2\<rfloor> div 2)) radii"
    by (metis assms(2) cv sum.inject(2) prod.inject)
  have c: "\<lfloor>X * 2\<rfloor> div 2 = \<lfloor>X\<rfloor>" by (rule half_floor_double)
  define F :: real where "F = of_int \<lfloor>X\<rfloor>"
  have f1: "F \<le> X" unfolding F_def by simp
  have f2: "X - 1 < F" unfolding F_def by linarith
  have c0: "0 \<le> F" using X8 f2 by simp
  have g: "min_gap scaled = (m / l) * F"
    unfolding sc c m_def F_def
    using min_gap_scale[OF np_diff_nonempty[OF assms(1)] c0[unfolded F_def] l] by simp
  have ml8: "m / l = 8 / X" unfolding X_def using m l by simp
  have X0: "0 < X" using X8 by simp
  have up: "min_gap scaled \<le> 8"
    unfolding g ml8 using f1 X0 by (simp add: pos_divide_le_eq mult.commute)
  have "7 * X < 8 * F" using X8 f2 by simp
  then have lo: "7 < min_gap scaled"
    unfolding g ml8 using X0 by (simp add: pos_less_divide_eq)
  have X2: "X * 2 = 16 * l / m" unfolding X_def by simp
  have s1: "of_int image_size \<le> 16 * l / m" unfolding sz X2[symmetric] by simp
  have s2: "16 * l / m < of_int image_size + 1" unfolding sz X2[symmetric] by linarith
  have a: "of_int image_size * m \<le> 16 * l" using s1 m by (simp add: pos_le_divide_eq)
  have b: "16 * l < (of_int image_size + 1) * m" using s2 m by (simp add: pos_divide_less_eq)
  show ?thesis using up lo a b unfolding m_def l_def by simp
qed






subsection \<open>Zone plate\<close>

lemma radicand_pos:
  assumes "0 < wl" "0 < fl" "1 \<le> n"
  shows "0 < radicand wl fl n"
proof -
  have "0 < of_int n * wl * fl" using assms by simp
  moreover have "0 \<le> (of_int n)\<^sup>2 * wl\<^sup>2 / 4" by simp
  ultimately show ?thesis unfolding radicand_def by linarith
qed

lemma no_nan:
  assumes "0 < wl" "0 < fl"
  shows "\<not> list_ex (\<lambda>n. radicand wl fl n < 0) [1..num_rings]"
  using radicand_pos[OF assms] by (auto simp: list_ex_iff not_less intro: less_imp_le)

lemma valid_ring_radii:
  assumes "0 < wl" "0 < fl" "2 \<le> n"
  shows "valid_radii (ring_radii wl fl n)"
proof -
  have "[1..n] = 1 # [2..n]" using assms by (simp add: upto_rec1)
  then have "hd (ring_radii wl fl n) = sqrt (radicand wl fl 1)"
    by (simp add: ring_radii_def)
  then have "0 < hd (ring_radii wl fl n)"
    using radicand_pos[OF assms(1,2), of 1] by simp
  moreover have "2 \<le> length (ring_radii wl fl n)"
    using assms by (simp add: ring_radii_def)
  ultimately show ?thesis
    using sorted_wrt_ring_radii[OF assms(1,2)] by (simp add: valid_radii_def)
qed

lemma canvas_size_ge:
  assumes "valid_radii rs" "canvas rs = Inr (image_size, scaled)"
  shows "16 \<le> image_size"
proof -
  have m: "0 < min_gap rs" by (rule min_gap_pos[OF assms(1)])
  have "16 * min_gap rs < 16 * last rs" using min_gap_less_last[OF assms(1)] by simp
  also have "\<dots> < (of_int image_size + 1) * min_gap rs"
    using canvas_thickness_bounds[OF assms] by simp
  finally have "16 < of_int image_size + (1::real)" using m by simp
  then show ?thesis by linarith
qed

lemma fold_fill_ring:
  "fold (fill_ring s radii) [0..<n] img0 y x =
     (if in_canvas s y x \<and> (\<exists>k<n. odd k \<and> radii ! (k - 1) \<le> distance (s div 2) y x
                                   \<and> distance (s div 2) y x < radii ! k)
      then 1 else img0 y x)"
proof (induction n)
  case 0
  then show ?case by simp
next
  case (Suc n)
  show ?case
    unfolding upt_Suc_append[OF le0] fold_append comp_def fold_simps
    by (auto simp: fill_ring_def Suc less_Suc_eq odd_iff_mod_2_eq_one)
qed

lemma zone_plate_pixels:
  assumes "0 < image_size"
  shows "\<exists>img. zone_plate image_size radii num_rings = Inr \<lparr>side = image_size, pixels = img\<rparr>
     \<and> (\<forall>y x. in_canvas image_size y x \<longrightarrow>
          (img y x = 1 \<longleftrightarrow> \<not> on_border image_size y x
               \<and> in_odd_band radii num_rings (distance (image_size div 2) y x))
        \<and> (img y x = 0 \<or> img y x = 1)
        \<and> (on_border image_size y x \<longrightarrow> img y x = 0))"
  using assms
  by (auto simp: zone_plate_def np_zeros_def set_border_def fold_fill_ring on_border_def
      in_odd_band_def)



subsection \<open>Bounds on \<open>pi\<close>\<close>

lemma sin_taylor5:
  fixes x :: real
  assumes "0 \<le> x"
  shows "\<bar>sin x - (x - x^3 / 6)\<bar> \<le> x^5 / 120"
proof -
  have s: "(\<Sum>m<5. sin_coeff m * x ^ m) = x - x^3 / 6"
    by (simp add: sin_coeff_Suc cos_coeff_Suc eval_nat_numeral sum.lessThan_Suc)
  have f: "inverse (fact 5) * \<bar>x\<bar> ^ 5 = x^5 / 120"
    using assms by (simp add: eval_nat_numeral)
  show ?thesis using Maclaurin_sin_bound[of x 5] unfolding s f .
qed

lemma pi_bounds: "31 / 10 < pi" "pi < 32 / 10"
proof -
  define x where "x = pi / 6"
  have x0: "0 \<le> x" unfolding x_def by simp
  have xu: "x < 2 / 3" unfolding x_def using pi_less_4 by simp
  have h: "sin x = 1 / 2" unfolding x_def by (rule sin_30)
  from sin_taylor5[OF x0] h
  have lo: "x - x^3 / 6 - x^5 / 120 \<le> 1 / 2" and hi: "1 / 2 \<le> x - x^3 / 6 + x^5 / 120"
    by linarith+
  have x2: "x^2 \<le> 4 / 9"
    using x0 xu power_mono[of x "2/3" 2] by (simp add: power2_eq_square)
  define t where "t = x^3"
  have t0: "0 \<le> t" unfolding t_def using x0 by simp
  have e5: "x^5 = t * x^2" unfolding t_def by (simp add: eval_nat_numeral)
  have x5: "x^5 \<le> t * (4 / 9)" unfolding e5 by (rule mult_left_mono[OF x2 t0])
  have xl: "x \<le> 1/2 + t * (23 / 135)" using lo x5 unfolding t_def[symmetric] by linarith
  have xh: "1/2 \<le> x - t * (22 / 135)" using hi x5 unfolding t_def[symmetric] by linarith
  show "31 / 10 < pi"
  proof (rule ccontr)
    assume "\<not> 31 / 10 < pi"
    then have a: "x \<le> 31 / 60" unfolding x_def by simp
    have "1/2 \<le> x" using xh t0 by linarith
    then have "(1/2)^3 \<le> x^3" by (intro power_mono) simp_all
    then have "1/8 \<le> t" unfolding t_def by (simp add: eval_nat_numeral)
    then show False using a xh by linarith
  qed
  have e3: "t = x * x^2" unfolding t_def by (simp add: eval_nat_numeral)
  have "t \<le> x * (4/9)" unfolding e3 by (rule mult_left_mono[OF x2 x0])
  then have xb: "x \<le> 11 / 20" using xl by linarith
  have x2': "x^2 \<le> 121 / 400"
    using x0 xb power_mono[of x "11/20" 2] by (simp add: power2_eq_square)
  have x5': "x^5 \<le> t * (121 / 400)" unfolding e5 by (rule mult_left_mono[OF x2' t0])
  have t': "t \<le> x * (121 / 400)" unfolding e3 by (rule mult_left_mono[OF x2' x0])
  show "pi < 32 / 10"
  proof (rule ccontr)
    assume "\<not> pi < 32 / 10"
    then have a: "8 / 15 \<le> x" unfolding x_def by simp
    show False using a lo x5' t' unfolding t_def[symmetric] by linarith
  qed
qed

subsection \<open>Dot count\<close>

lemma py_int_nonneg: "0 \<le> r \<Longrightarrow> py_int r = \<lfloor>r\<rfloor>"
  by (simp add: py_int_def)

lemma uniform_range:
  assumes "a \<le> b" "0 \<le> u" "u < 1"
  shows "a \<le> uniform a b u" "a < b \<Longrightarrow> uniform a b u < b"
proof -
  have "0 \<le> (b - a) * u" using assms by simp
  then show "a \<le> uniform a b u" by (simp add: uniform_def)
  assume "a < b"
  then have "(b - a) * u < (b - a) * 1" using assms by (intro mult_strict_left_mono) simp_all
  then show "uniform a b u < b" by (simp add: uniform_def)
qed

lemma dot_radius_ge: "4 \<le> dot_radius_of t"
  by (simp add: dot_radius_of_def min_ring_thickness_px_def)

text \<open>
  C5 (amended).  With \<open>dotRadius = max (floor (ringThickness / 2)) 4\<close>, the regular
  sieve places \<open>max 1 (floor (circumference / (3.5 * dotRadius)))\<close> dots on a ring, and
  the random sieve \<open>max 1 (floor (circumference / (5.1 * dotRadius * factor)))\<close>, where
  \<open>5.1 * dotRadius\<close> is the sum of the two bounds \<open>1.1 * dotRadius\<close> and
  \<open>4 * dotRadius\<close> (not their midpoint) and \<open>factor\<close> is one draw from \<open>[1.3, 1.5)\<close>.
\<close>

theorem dot_count:
  assumes "0 \<le> ring_thickness" "0 \<le> radius_outer" "0 \<le> u" "u < 1"
  shows "dot_radius_of ring_thickness = max \<lfloor>ring_thickness / 2\<rfloor> 4
       \<and> num_dots_of False u (dot_radius_of ring_thickness) radius_outer
           = max 1 \<lfloor>2 * pi * radius_outer / (35 / 10 * of_int (dot_radius_of ring_thickness))\<rfloor>
       \<and> num_dots_of True u (dot_radius_of ring_thickness) radius_outer
           = max 1 \<lfloor>2 * pi * radius_outer /
                      (51 / 10 * of_int (dot_radius_of ring_thickness) * uniform (13 / 10) (15 / 10) u)\<rfloor>
       \<and> 13 / 10 \<le> uniform (13 / 10) (15 / 10) u \<and> uniform (13 / 10) (15 / 10) u < 15 / 10"
proof -
  define d where "d = dot_radius_of ring_thickness"
  have d: "0 < (of_int d :: real)" unfolding d_def using dot_radius_ge[of ring_thickness] by simp
  have u1: "13 / 10 \<le> uniform (13 / 10) (15 / 10) u"
    and u2: "uniform (13 / 10) (15 / 10) u < 15 / 10"
    using uniform_range[of "13/10" "15/10" u] assms by simp_all
  have r: "dot_radius_of ring_thickness = max \<lfloor>ring_thickness / 2\<rfloor> 4"
    using assms by (simp add: dot_radius_of_def py_int_nonneg min_ring_thickness_px_def)
  have c: "0 \<le> 2 * pi * radius_outer" using assms by simp
  have "0 \<le> 2 * pi * radius_outer / ((of_int d * 3 + of_int d * 4) / 2)"
    using c d by simp
  then have n1: "num_dots_of False u d radius_outer
           = max 1 \<lfloor>2 * pi * radius_outer / (35 / 10 * of_int d)\<rfloor>"
    by (simp add: num_dots_of_def Let_def py_int_nonneg algebra_simps)
  have e: "(of_int d * (11 / 10) + of_int d * 4) * uniform (13 / 10) (15 / 10) u
         = 51 / 10 * of_int d * uniform (13 / 10) (15 / 10) u"
    by (simp add: algebra_simps)
  have "0 < 51 / 10 * of_int d * uniform (13 / 10) (15 / 10) u"
    using d u1 by simp
  then have "0 \<le> 2 * pi * radius_outer / (51 / 10 * of_int d * uniform (13 / 10) (15 / 10) u)"
    using c by (intro divide_nonneg_pos) simp_all
  then have n2: "num_dots_of True u d radius_outer
           = max 1 \<lfloor>2 * pi * radius_outer / (51 / 10 * of_int d * uniform (13 / 10) (15 / 10) u)\<rfloor>"
    unfolding num_dots_of_def Let_def e by (simp add: py_int_nonneg)
  show ?thesis using r n1 n2 u1 u2 unfolding d_def by blast
qed

text \<open>
  The ring of the run with wavelength 14, focal length 120/7 and two rings has outer
  radius 23 and dot radius 4; with the random value 3/4 the code places 4 dots, the
  midpoint formula of the claim would give 9.
\<close>

lemma floor_pi_multiple:
  assumes "0 < c" "of_int a \<le> c * (31 / 10)" "c * (32 / 10) \<le> of_int a + 1"
  shows "\<lfloor>c * pi\<rfloor> = a"
proof -
  have "c * (31 / 10) < c * pi" using assms(1) pi_bounds(1) by (intro mult_strict_left_mono)
  moreover have "c * pi < c * (32 / 10)" using assms(1) pi_bounds(2) by (intro mult_strict_left_mono)
  ultimately have "of_int a \<le> c * pi \<and> c * pi < of_int a + 1"
    using assms(2,3) by linarith
  then show ?thesis by (simp add: floor_eq_iff)
qed

lemma ring_example_dots: "num_dots_of True (3 / 4) 4 23 = 4"
proof -
  have "\<lfloor>(460 / 2958 * 10) * pi\<rfloor> = 4" by (rule floor_pi_multiple) simp_all
  moreover have "pi * 46 / (102 / 5 * (29 / 20)) = (460 / 2958 * 10) * pi" by simp
  ultimately show ?thesis
    by (simp add: num_dots_of_def Let_def uniform_def py_int_def)
qed

theorem dot_count_counterexample:
  "dot_radius_of (23 - 391 / 26) = 4
   \<and> num_dots_of True (3 / 4) 4 23 = 4
   \<and> max 1 \<lfloor>2 * pi * 23 / (((11 / 10 * 4 + 4 * 4) / 2) * uniform (13 / 10) (15 / 10) (3 / 4))\<rfloor> = 9"
proof -
  have "\<lfloor>(46 / (1479 / 100)) * pi\<rfloor> = 9" by (rule floor_pi_multiple) simp_all
  moreover have "2 * pi * 23 / (((11 / 10 * 4 + 4 * 4) / 2) * uniform (13 / 10) (15 / 10) (3 / 4))
      = (46 / (1479 / 100)) * pi" by (simp add: uniform_def)
  ultimately have "max 1 \<lfloor>2 * pi * 23 / (((11 / 10 * 4 + 4 * 4) / 2) * uniform (13 / 10) (15 / 10) (3 / 4))\<rfloor> = 9"
    by (simp only:)
  moreover have "dot_radius_of (23 - 391 / 26) = 4"
    by (simp add: dot_radius_of_def py_int_def min_ring_thickness_px_def)
  ultimately show ?thesis using ring_example_dots by blast
qed

theorem dot_count_witness:
  "(0::real) \<le> 23 - 391 / 26 \<and> (0::real) \<le> 23 \<and> (0::real) \<le> 3 / 4 \<and> (3 / 4 :: real) < 1
   \<and> dot_radius_of (23 - 391 / 26) = max \<lfloor>(23 - 391 / 26) / 2 :: real\<rfloor> 4
   \<and> num_dots_of False (3 / 4) (dot_radius_of (23 - 391 / 26)) 23
       = max 1 \<lfloor>2 * pi * 23 / (35 / 10 * of_int (dot_radius_of (23 - 391 / 26)))\<rfloor>
   \<and> num_dots_of True (3 / 4) (dot_radius_of (23 - 391 / 26)) 23
       = max 1 \<lfloor>2 * pi * 23 /
                  (51 / 10 * of_int (dot_radius_of (23 - 391 / 26)) * uniform (13 / 10) (15 / 10) (3 / 4))\<rfloor>
   \<and> 13 / 10 \<le> uniform (13 / 10) (15 / 10) (3 / 4) \<and> uniform (13 / 10) (15 / 10) (3 / 4) < 15 / 10"
proof -
  have h: "(0::real) \<le> 23 - 391 / 26" "(0::real) \<le> 23" "(0::real) \<le> 3 / 4" "(3 / 4 :: real) < 1"
    by simp_all
  show ?thesis using h dot_count[OF h] by blast
qed

subsection \<open>Input validation\<close>

lemma convert_units_scale:
  assumes "unit \<in> set unit_choices"
  shows "\<exists>c>0. convert_units v unit = Inr (v / c)"
proof -
  from assms consider "unit = ''m''" | "unit = ''cm''" | "unit = ''mm''"
    | "unit = ''um''" | "unit = ''nm''"
    by (auto simp: unit_choices_def)
  then show ?thesis
  proof cases
    case 1
    then have "convert_units v unit = Inr (v / 1)" by (simp add: convert_units_def)
    then show ?thesis by (intro exI[of _ 1]) simp
  next
    case 2
    then have "convert_units v unit = Inr (v / 100)" by (simp add: convert_units_def)
    then show ?thesis by (intro exI[of _ 100]) simp
  next
    case 3
    then have "convert_units v unit = Inr (v / 1000)" by (simp add: convert_units_def)
    then show ?thesis by (intro exI[of _ 1000]) simp
  next
    case 4
    then have "convert_units v unit = Inr (v / 1000000)" by (simp add: convert_units_def)
    then show ?thesis by (intro exI[of _ 1000000]) simp
  next
    case 5
    then have "convert_units v unit = Inr (v / 1000000000)" by (simp add: convert_units_def)
    then show ?thesis by (intro exI[of _ 1000000000]) simp
  qed
qed

lemma convert_units_choice:
  assumes "unit \<in> set unit_choices"
  shows "\<exists>w. convert_units v unit = Inr w \<and> (0 < w \<longleftrightarrow> 0 < v)"
proof -
  obtain c where "0 < c" "convert_units v unit = Inr (v / c)"
    using convert_units_scale[OF assms] by blast
  then show ?thesis by (simp add: zero_less_divide_iff)
qed

text \<open>
  C9 (amended).  With unit names that the parser accepts, \<^verbatim>\<open>main\<close> raises before
  any generator runs exactly when \<open>num_rings < 2\<close>; otherwise the converted wavelength
  and focal length are passed on whatever their sign.
\<close>

theorem input_validation:
  assumes "arg_wavelength_unit a \<in> set unit_choices"
          "arg_focal_length_unit a \<in> set unit_choices"
  shows "(arg_num_rings a < 2 \<longrightarrow>
            main_params a = Inl ValueError \<and> main rnd a = Some (Inl ValueError))
       \<and> (2 \<le> arg_num_rings a \<longrightarrow>
            (\<exists>wavelength focal_length.
               main_params a = Inr (wavelength, focal_length, arg_num_rings a)
             \<and> (0 < wavelength \<longleftrightarrow> 0 < arg_wavelength a)
             \<and> (0 < focal_length \<longleftrightarrow> 0 < arg_focal_length a)))"
proof -
  obtain w where w: "convert_units (arg_wavelength a) (arg_wavelength_unit a) = Inr w"
      "0 < w \<longleftrightarrow> 0 < arg_wavelength a"
    using convert_units_choice[OF assms(1)] by blast
  obtain f where f: "convert_units (arg_focal_length a) (arg_focal_length_unit a) = Inr f"
      "0 < f \<longleftrightarrow> 0 < arg_focal_length a"
    using convert_units_choice[OF assms(2)] by blast
  show ?thesis using w f by (auto simp: main_params_def main_def)
qed

text \<open>
  A negative wavelength with a negative focal length passes: the radicands are those of
  wavelength 14 and focal length 120/7, and the zone plate is generated.
\<close>

lemma radii_example_neg: "ring_radii (- 14) (- (120 / 7)) 2 = [17, 26]"
  by (simp add: ring_radii_def radicand_def upto_rec1 sqrt_sq[of 17] sqrt_sq[of 26])

lemma zone_plate_example_neg:
  "generate_fresnel_zone_plate (- 14) (- (120 / 7)) 2 = zone_plate 46 [391 / 26, 23] 2"
  by (simp add: generate_fresnel_zone_plate_def radii_example_neg canvas_example)
     (simp add: radicand_def upto_rec1)

lemma zone_plate_returns: "0 < image_size \<Longrightarrow> \<not> isl (zone_plate image_size radii num_rings)"
  using zone_plate_pixels[of image_size radii num_rings] by auto

theorem input_validation_counterexample:
  "main_params negative_args = Inr (- 14, - (120 / 7), 2)
   \<and> \<not> isl (generate_fresnel_zone_plate (- 14) (- (120 / 7)) 2)
   \<and> main (\<lambda>i. 0) negative_args
       = Some (Inr [(''fresnel_zone_plate'', projr (generate_fresnel_zone_plate (- 14) (- (120 / 7)) 2))])"
proof -
  have p: "main_params negative_args = Inr (- 14, - (120 / 7), 2)"
    by (simp add: main_params_def negative_args_def convert_units_def)
  have g: "\<not> isl (generate_fresnel_zone_plate (- 14) (- (120 / 7)) 2)"
    unfolding zone_plate_example_neg by (rule zone_plate_returns) simp
  then obtain m where m: "generate_fresnel_zone_plate (- 14) (- (120 / 7)) 2 = Inr m"
    by (cases "generate_fresnel_zone_plate (- 14) (- (120 / 7)) 2") auto
  have "main (\<lambda>i. 0) negative_args = Some (Inr [(''fresnel_zone_plate'', m)])"
    unfolding main_def p by (simp add: add_image_def m) (simp add: negative_args_def)
  then show ?thesis using p g m by simp
qed

theorem input_validation_witness:
  "arg_wavelength_unit one_ring_args \<in> set unit_choices
   \<and> arg_focal_length_unit one_ring_args \<in> set unit_choices
   \<and> arg_num_rings one_ring_args < 2
   \<and> main_params one_ring_args = Inl ValueError
   \<and> main (\<lambda>i. 0) one_ring_args = Some (Inl ValueError)"
proof -
  have h: "arg_wavelength_unit one_ring_args \<in> set unit_choices"
     "arg_focal_length_unit one_ring_args \<in> set unit_choices"
    by (simp_all add: one_ring_args_def unit_choices_def)
  have n: "arg_num_rings one_ring_args < 2" by (simp add: one_ring_args_def)
  show ?thesis using h n input_validation[OF h, of "\<lambda>i. 0"] by blast
qed

subsection \<open>The retry loop and the placing of a dot\<close>

lemma find_open_immediate:
  assumes "in_canvas image_size (dot_y (image_size div 2) radius_inner ring_thickness (fst st))
             (dot_x (image_size div 2) radius_inner ring_thickness (fst st))"
    and "img (dot_y (image_size div 2) radius_inner ring_thickness (fst st))
             (dot_x (image_size div 2) radius_inner ring_thickness (fst st)) = 0"
  shows "find_open rnd img image_size radius_inner ring_thickness num_dots st = Some st"
  by (subst find_open.simps) (simp add: assms Let_def)



lemma stamp_dot_idem:
  "stamp_dot s d x y (stamp_dot s d x y img) = stamp_dot s d x y img"
  by (intro ext) (simp add: stamp_dot_def Let_def)

lemma place_dot_random:
  assumes "a' = angle + uniform 0 (pi / of_int num_dots) (rnd (snd st))"
    and "x = dot_x (image_size div 2) radius_inner ring_thickness a'"
    and "y = dot_y (image_size div 2) radius_inner ring_thickness a'"
    and "in_canvas image_size y x" "fst st y x = 0"
  shows "place_dot True rnd image_size radius_inner ring_thickness dot_radius num_dots angle st
       = Some (stamp_dot image_size dot_radius x y (fst st), Suc (snd st))"
proof -
  have "find_open rnd (fst st) image_size radius_inner ring_thickness num_dots (a', Suc (snd st))
      = Some (a', Suc (snd st))"
    by (rule find_open_immediate) (use assms in simp_all)
  then show ?thesis
    using assms by (simp add: place_dot_def Let_def stamp_dot_idem)
qed

subsection \<open>A complete run of the random sieve\<close>

lemma example_angles: "np_linspace 4 = [0, pi / 2, pi, 3 * pi / 2]"
  by (simp add: np_linspace_def upt_rec eval_nat_numeral)

lemma trig_3over2: "cos (3 * pi / 2) = 0" "sin (3 * pi / 2) = - 1"
proof -
  have e: "3 * pi / 2 = 3 / 2 * pi" by simp
  show "cos (3 * pi / 2) = 0" unfolding e by (rule cos_3over2_pi)
  show "sin (3 * pi / 2) = - 1" unfolding e by (rule sin_3over2_pi)
qed

lemma example_positions:
  "dot_x 23 (391 / 26) (207 / 26) 0 = 42"
  "dot_y 23 (391 / 26) (207 / 26) 0 = 23"
  "dot_x 23 (391 / 26) (207 / 26) (pi / 2) = 23"
  "dot_y 23 (391 / 26) (207 / 26) (pi / 2) = 42"
  "dot_x 23 (391 / 26) (207 / 26) pi = 4"
  "dot_y 23 (391 / 26) (207 / 26) pi = 23"
  "dot_x 23 (391 / 26) (207 / 26) (3 * pi / 2) = 23"
  "dot_y 23 (391 / 26) (207 / 26) (3 * pi / 2) = 4"
  by (simp_all add: dot_x_def dot_y_def py_int_def trig_3over2)

lemma example_ring:
  "sieve_ring True example_rng 46 [391 / 26, 23] (Suc 0) (\<lambda>y x. 0, 0) = Some (example_dots, 5)"
proof -
  let ?place = "place_dot True example_rng 46 (391 / 26) (207 / 26) 4 4"
  let ?i0 = "\<lambda>y x. 0 :: nat"
  let ?i1 = "stamp_dot 46 4 42 23 ?i0"
  let ?i2 = "stamp_dot 46 4 23 42 ?i1"
  let ?i3 = "stamp_dot 46 4 4 23 ?i2"
  have d: "dot_radius_of (207 / 26) = 4"
    by (simp add: dot_radius_of_def py_int_def min_ring_thickness_px_def)
  have j: "uniform 0 b (example_rng (Suc n)) = 0" for n b
    by (simp add: example_rng_def uniform_def)
  have z1: "?i1 42 23 = 0" "?i2 23 4 = 0" "?i3 4 23 = 0"
    by (simp_all add: stamp_dot_def disk_mask_def)
  have p1: "?place 0 (?i0, Suc 0) = Some (?i1, Suc (Suc 0))"
    by (rule place_dot_random[where a' = 0 and x = 42 and y = 23, THEN trans])
       (simp_all add: j example_positions in_canvas_def)
  have p2: "?place (pi / 2) (?i1, Suc (Suc 0)) = Some (?i2, Suc (Suc (Suc 0)))"
    by (rule place_dot_random[where a' = "pi / 2" and x = 23 and y = 42, THEN trans])
       (simp_all add: j example_positions in_canvas_def z1)
  have p3: "?place pi (?i2, Suc (Suc (Suc 0))) = Some (?i3, Suc (Suc (Suc (Suc 0))))"
    by (rule place_dot_random[where a' = pi and x = 4 and y = 23, THEN trans])
       (simp_all add: j example_positions in_canvas_def z1)
  have p4: "?place (3 * pi / 2) (?i3, Suc (Suc (Suc (Suc 0)))) = Some (example_dots, 5)"
    by (rule place_dot_random[where a' = "3 * pi / 2" and x = 23 and y = 4, THEN trans])
       (simp_all add: j example_positions in_canvas_def z1 example_dots_def)
  have n: "num_dots_of True (example_rng 0) 4 23 = 4"
    using ring_example_dots by (simp add: example_rng_def)
  show ?thesis
    by (simp add: sieve_ring_def Let_def d n example_angles p1 p2 p3 p4)
qed

lemma example_photon_sieve:
  "photon_sieve True example_rng 46 [391 / 26, 23] 2 = Some (Inr example_sieve)"
proof -
  have o: "filter odd [1..<nat 2] = [1]" by (simp add: upt_rec eval_nat_numeral)
  have c: "clear_center 46 (391 / 26) (\<lambda>y x. 0) = (\<lambda>y x. 0)"
    by (simp add: clear_center_def)
  show ?thesis
    unfolding photon_sieve_def o
    by (simp add: np_zeros_def c example_ring set_border_def example_sieve_def)
qed

lemma example_generate:
  "generate_photon_sieve 14 (120 / 7) 2 True example_rng = Some (Inr example_sieve)"
  by (simp add: generate_photon_sieve_def radii_example canvas_example example_photon_sieve)
     (simp add: radicand_def upto_rec1)

lemma example_pixels:
  "pixels example_sieve 23 38 = 1" "pixels example_sieve 27 42 = 0"
  "pixels example_sieve 19 42 = 1"
  by (simp_all add: example_sieve_def example_dots_def stamp_dot_def disk_mask_def)

subsection \<open>Geometry of truncated dot centres\<close>

lemma py_int_abs_le: "\<bar>of_int (py_int v)\<bar> \<le> \<bar>v\<bar>"
proof (cases "0 \<le> v")
  case True
  then show ?thesis by (simp add: py_int_def)
next
  case False
  then have "py_int v = \<lceil>v\<rceil>" by (simp add: py_int_def)
  moreover have "of_int \<lceil>v\<rceil> \<le> (0::real)" using False by (simp add: ceiling_le_iff)
  moreover have "v \<le> of_int \<lceil>v\<rceil>" by simp
  ultimately show ?thesis using False by simp
qed

lemma py_int_err: "\<bar>of_int (py_int v) - v\<bar> < 1"
proof (cases "0 \<le> v")
  case True
  then have "py_int v = \<lfloor>v\<rfloor>" by (simp add: py_int_def)
  then show ?thesis by simp linarith
next
  case False
  then have "py_int v = \<lceil>v\<rceil>" by (simp add: py_int_def)
  then show ?thesis by simp linarith
qed

lemma sqrt2_less: "sqrt 2 < 3 / 2"
proof -
  have "sqrt 2 < sqrt ((3 / 2)\<^sup>2)"
    by (rule real_sqrt_less_mono) (simp add: power2_eq_square)
  then show ?thesis by simp
qed

lemma norm2_triangle:
  "sqrt ((a + b)\<^sup>2 + (c + d)\<^sup>2) \<le> sqrt (a\<^sup>2 + c\<^sup>2) + sqrt (b\<^sup>2 + d\<^sup>2)"
  using norm_triangle_ineq[of "Complex a c" "Complex b d"]
  by (simp add: cmod_def)

lemma trunc_centre_lower:
  assumes "0 \<le> R"
  shows "R - sqrt 2 \<le> sqrt ((of_int (py_int (R * cos a)))\<^sup>2 + (of_int (py_int (R * sin a)))\<^sup>2)"
proof -
  let ?X = "of_int (py_int (R * cos a)) :: real"
  let ?Y = "of_int (py_int (R * sin a)) :: real"
  have "(R * cos a)\<^sup>2 + (R * sin a)\<^sup>2 = R\<^sup>2 * ((cos a)\<^sup>2 + (sin a)\<^sup>2)"
    by (simp only: power_mult_distrib distrib_left)
  also have "\<dots> = R\<^sup>2" by (simp only: sin_cos_squared_add2 mult_1_right)
  finally have r: "sqrt ((R * cos a)\<^sup>2 + (R * sin a)\<^sup>2) = R"
    using assms by simp
  have ex: "(R * cos a - ?X)\<^sup>2 \<le> 1" "(R * sin a - ?Y)\<^sup>2 \<le> 1"
    using py_int_err[of "R * cos a"] py_int_err[of "R * sin a"]
    by (simp_all add: abs_square_le_1 abs_minus_commute less_imp_le)
  then have "sqrt ((R * cos a - ?X)\<^sup>2 + (R * sin a - ?Y)\<^sup>2) \<le> sqrt 2"
    by (intro real_sqrt_le_mono) linarith
  moreover have "sqrt ((R * cos a)\<^sup>2 + (R * sin a)\<^sup>2)
      \<le> sqrt (?X\<^sup>2 + ?Y\<^sup>2) + sqrt ((R * cos a - ?X)\<^sup>2 + (R * sin a - ?Y)\<^sup>2)"
    using norm2_triangle[of ?X "R * cos a - ?X" ?Y "R * sin a - ?Y"] by simp
  ultimately show ?thesis using r by linarith
qed

lemma trunc_coord_bounds:
  assumes "0 \<le> R"
  shows "\<bar>of_int (py_int (R * cos a))\<bar> \<le> R" "\<bar>of_int (py_int (R * sin a))\<bar> \<le> R"
proof -
  have "\<bar>R * cos a\<bar> \<le> R * 1" unfolding abs_mult using assms
    by (intro mult_mono) (simp_all add: abs_cos_le_one)
  then show "\<bar>of_int (py_int (R * cos a))\<bar> \<le> R"
    using py_int_abs_le[of "R * cos a"] by linarith
  have "\<bar>R * sin a\<bar> \<le> R * 1" unfolding abs_mult using assms
    by (intro mult_mono) (simp_all add: abs_sin_le_one)
  then show "\<bar>of_int (py_int (R * sin a))\<bar> \<le> R"
    using py_int_abs_le[of "R * sin a"] by linarith
qed

lemma dot_radius_le:
  assumes "7 < t"
  shows "of_int (dot_radius_of t) \<le> t / 2 + 1 / 2"
proof -
  have "py_int (t / 2) = \<lfloor>t / 2\<rfloor>" using assms by (simp add: py_int_def)
  moreover have "of_int \<lfloor>t / 2\<rfloor> \<le> t / 2" by (rule of_int_floor_le)
  ultimately have "of_int (py_int (t / 2)) \<le> t / 2" by simp
  then show ?thesis
    using assms unfolding dot_radius_of_def min_ring_thickness_px_def max_def
    by (simp split: if_splits)
qed

subsection \<open>Scaled radii of a canvas\<close>

lemma np_diff_gap:
  assumes "Suc i < length rs"
  shows "min_gap rs \<le> rs ! Suc i - rs ! i"
proof -
  have "rs ! Suc i - rs ! i \<in> set (np_diff rs)"
    unfolding np_diff_def using assms by (auto intro!: image_eqI[where x = i])
  then show ?thesis unfolding min_gap_def by simp
qed

lemma canvas_valid_eq:
  assumes "valid_radii rs" "canvas rs = Inr (image_size, scaled)"
  shows "image_size = \<lfloor>(8 / min_gap rs) * last rs * 2\<rfloor>"
    and "scaled = map (\<lambda>r. (r / last rs) * of_int (image_size div 2)) rs"
proof -
  note cv = canvas_valid[OF assms(1)]
  show sz: "image_size = \<lfloor>(8 / min_gap rs) * last rs * 2\<rfloor>"
    by (metis assms(2) cv sum.inject(2) prod.inject)
  show "scaled = map (\<lambda>r. (r / last rs) * of_int (image_size div 2)) rs"
    unfolding sz by (metis assms(2) cv sum.inject(2) prod.inject)
qed

lemma canvas_scaled_ok:
  assumes "valid_radii rs" "canvas rs = Inr (image_size, scaled)"
  shows "scaled_ok image_size scaled"
proof -
  note sc = canvas_valid_eq(2)[OF assms]
  have l: "0 < last rs" by (rule last_pos[OF assms(1)])
  have s16: "16 \<le> image_size" by (rule canvas_size_ge[OF assms])
  then have c: "(0::real) < of_int (image_size div 2)" by simp
  have n: "2 \<le> length rs" and ne: "rs \<noteq> []" using assms(1) by (auto simp: valid_radii_def)
  have len: "length scaled = length rs" by (subst sc) simp
  have nth: "scaled ! i = (rs ! i / last rs) * of_int (image_size div 2)" if "i < length rs" for i
    using that by (subst sc) simp
  have srt: "sorted_wrt (<) scaled"
    apply (subst sc)
    unfolding sorted_wrt_map
    by (rule sorted_wrt_mono_rel[where P = "(<)"])
       (use assms(1) l c in \<open>auto simp: valid_radii_def divide_strict_right_mono\<close>)
  have i0: "0 < length rs" using n by arith
  have p0: "0 < scaled ! 0"
    unfolding nth[OF i0] using valid_radii_pos[OF assms(1) i0] l c by simp
  have lst: "last scaled = of_int (image_size div 2)"
    apply (subst sc)
    using ne l by (simp add: last_map)
  have gaps: "7 < scaled ! Suc i - scaled ! i" if "Suc i < length scaled" for i
    using np_diff_gap[OF that] canvas_thickness_bounds[OF assms] by linarith
  show ?thesis
    unfolding scaled_ok_def using s16 n len srt p0 lst gaps by auto
qed

lemma scaled_ring:
  assumes "scaled_ok image_size radii" "0 < k" "k < length radii"
  shows "7 < radii ! k - radii ! (k - 1)" "radii ! 0 \<le> radii ! (k - 1)"
        "radii ! k \<le> of_int (image_size div 2)"
proof -
  obtain j where j: "k = Suc j" using assms(2) by (cases k) auto
  show "7 < radii ! k - radii ! (k - 1)"
    using assms(1,3) unfolding scaled_ok_def j by simp
  have srt: "sorted_wrt (<) radii" using assms(1) by (simp add: scaled_ok_def)
  show "radii ! 0 \<le> radii ! (k - 1)"
    using sorted_wrt_nth_less[OF srt, of 0 j] assms(3) unfolding j by (cases j) auto
  have "radii ! k \<le> radii ! (length radii - 1)"
  proof (cases "k = length radii - 1")
    case True
    then show ?thesis by simp
  next
    case False
    then have a: "k < length radii - 1" using assms(3) by arith
    have b: "length radii - 1 < length radii" using assms(3) by arith
    show ?thesis
      using sorted_wrt_nth_less[OF srt a b] by simp
  qed
  moreover have "radii \<noteq> []" using assms(3) by auto
  ultimately show "radii ! k \<le> of_int (image_size div 2)"
    using assms(1) by (simp add: scaled_ok_def last_conv_nth)
qed

subsection \<open>Where a dot can set pixels\<close>

lemma norm2_triangle_diff:
  "sqrt (x\<^sup>2 + y\<^sup>2) \<le> sqrt ((a + x)\<^sup>2 + (b + y)\<^sup>2) + sqrt (a\<^sup>2 + b\<^sup>2)"
  using norm2_triangle[of "a + x" "- a" "b + y" "- b"] by simp

lemma stamp_dot_changed:
  assumes "stamp_dot s d cx cy img py px \<noteq> img py px" "d \<le> cx" "d \<le> cy"
  shows "(py - cy)\<^sup>2 + (px - cx)\<^sup>2 \<le> d\<^sup>2" "in_canvas s py px"
proof -
  have m: "max 0 (cy - d) = cy - d" "max 0 (cx - d) = cx - d" using assms(2,3) by simp_all
  from assms(1) have h: "cy - d \<le> py" "py < min s (cy + d)" "cx - d \<le> px" "px < min s (cx + d)"
    "disk_mask d (py - (cy - d)) (px - (cx - d))"
    unfolding stamp_dot_def Let_def m by (auto split: if_splits)
  have e: "py - (cy - d) - d = py - cy" "px - (cx - d) - d = px - cx" by simp_all
  show "(py - cy)\<^sup>2 + (px - cx)\<^sup>2 \<le> d\<^sup>2"
    using h(5) unfolding disk_mask_def e .
  show "in_canvas s py px" using h assms(2,3) by (simp add: in_canvas_def)
qed

lemma dot_no_clip:
  assumes "scaled_ok image_size radii" "0 < k" "k < length radii"
  defines "t \<equiv> radii ! k - radii ! (k - 1)"
  shows "dot_radius_of t \<le> dot_x (image_size div 2) (radii ! (k - 1)) t a"
    and "dot_radius_of t \<le> dot_y (image_size div 2) (radii ! (k - 1)) t a"
proof -
  let ?R = "radii ! (k - 1) + t / 2"
  note r = scaled_ring[OF assms(1-3)]
  have p0: "0 < radii ! 0" using assms(1) by (simp add: scaled_ok_def)
  have t7: "7 < t" unfolding t_def by (rule r(1))
  have R0: "0 \<le> ?R" using r(2) p0 t7 by linarith
  have d: "of_int (dot_radius_of t) \<le> t / 2 + 1 / 2" by (rule dot_radius_le[OF t7])
  have "?R + t / 2 = radii ! k" unfolding t_def by (simp add: field_simps)
  then have c: "?R + t / 2 \<le> of_int (image_size div 2)" using r(3) by simp
  have "of_int (dot_radius_of t) - 1 / 2 \<le> of_int (image_size div 2) - ?R" using d c by linarith
  also have "\<dots> \<le> of_int (image_size div 2) + of_int (py_int (?R * cos a))"
    using trunc_coord_bounds(1)[OF R0, of a] by linarith
  finally have "(of_int (dot_radius_of t) :: real)
      < of_int (image_size div 2 + py_int (?R * cos a)) + 1" by simp
  then show "dot_radius_of t \<le> dot_x (image_size div 2) (radii ! (k - 1)) t a"
    unfolding dot_x_def by linarith
  have "of_int (dot_radius_of t) - 1 / 2 \<le> of_int (image_size div 2) - ?R" using d c by linarith
  also have "\<dots> \<le> of_int (image_size div 2) + of_int (py_int (?R * sin a))"
    using trunc_coord_bounds(2)[OF R0, of a] by linarith
  finally have "(of_int (dot_radius_of t) :: real)
      < of_int (image_size div 2 + py_int (?R * sin a)) + 1" by simp
  then show "dot_radius_of t \<le> dot_y (image_size div 2) (radii ! (k - 1)) t a"
    unfolding dot_y_def by linarith
qed

lemma stamp_far:
  assumes "scaled_ok image_size radii" "0 < k" "k < length radii"
  defines "t \<equiv> radii ! k - radii ! (k - 1)"
  defines "c \<equiv> image_size div 2"
  assumes ch: "stamp_dot image_size (dot_radius_of t) (dot_x c (radii ! (k - 1)) t a)
                 (dot_y c (radii ! (k - 1)) t a) img py px \<noteq> img py px"
  shows "radii ! 0 - 2 < distance c py px"
proof -
  let ?R = "radii ! (k - 1) + t / 2"
  let ?d = "dot_radius_of t"
  let ?X = "of_int (py_int (?R * cos a)) :: real"
  let ?Y = "of_int (py_int (?R * sin a)) :: real"
  let ?cx = "dot_x c (radii ! (k - 1)) t a"
  let ?cy = "dot_y c (radii ! (k - 1)) t a"
  note r = scaled_ring[OF assms(1-3)]
  have p0: "0 < radii ! 0" using assms(1) by (simp add: scaled_ok_def)
  have t7: "7 < t" unfolding t_def by (rule r(1))
  have R0: "0 \<le> ?R" using r(2) p0 t7 by linarith
  have d: "of_int ?d \<le> t / 2 + 1 / 2" by (rule dot_radius_le[OF t7])
  have d0: "0 \<le> (of_int ?d :: real)" using dot_radius_ge[of t] by simp
  have nc: "?d \<le> ?cx" "?d \<le> ?cy"
    using dot_no_clip[OF assms(1-3), of a] unfolding t_def c_def by simp_all
  have "(py - ?cy)\<^sup>2 + (px - ?cx)\<^sup>2 \<le> ?d\<^sup>2"
    by (rule stamp_dot_changed(1)[OF ch nc])
  then have "(of_int ((py - ?cy)\<^sup>2 + (px - ?cx)\<^sup>2) :: real) \<le> of_int (?d\<^sup>2)"
    by (simp only: of_int_le_iff)
  then have "sqrt ((of_int (px - ?cx))\<^sup>2 + (of_int (py - ?cy))\<^sup>2) \<le> sqrt ((of_int ?d)\<^sup>2)"
    by (intro real_sqrt_le_mono) (simp add: add.commute)
  then have near: "sqrt ((of_int (px - ?cx))\<^sup>2 + (of_int (py - ?cy))\<^sup>2) \<le> of_int ?d"
    using d0 by simp
  have ex: "of_int (px - c) = of_int (px - ?cx) + ?X" "of_int (py - c) = of_int (py - ?cy) + ?Y"
    by (simp_all add: dot_x_def dot_y_def)
  have "sqrt (?X\<^sup>2 + ?Y\<^sup>2)
      \<le> sqrt ((of_int (px - c))\<^sup>2 + (of_int (py - c))\<^sup>2)
        + sqrt ((of_int (px - ?cx))\<^sup>2 + (of_int (py - ?cy))\<^sup>2)"
    unfolding ex by (rule norm2_triangle_diff)
  moreover have "?R - sqrt 2 \<le> sqrt (?X\<^sup>2 + ?Y\<^sup>2)" by (rule trunc_centre_lower[OF R0])
  moreover have "distance c py px = sqrt ((of_int (px - c))\<^sup>2 + (of_int (py - c))\<^sup>2)"
    by (simp add: distance_def)
  ultimately have "?R - sqrt 2 - of_int ?d \<le> distance c py px"
    using near by linarith
  then show ?thesis using sqrt2_less d r(2) by linarith
qed

subsection \<open>Invariants of the sieve loops\<close>

lemma for_each_invariant:
  assumes "for_each body xs s = Some s'" "P s"
    and "\<And>a s s'. a \<in> set xs \<Longrightarrow> P s \<Longrightarrow> body a s = Some s' \<Longrightarrow> P s'"
  shows "P s'"
  using assms
proof (induction xs arbitrary: s)
  case Nil
  then show ?case by simp
next
  case (Cons a xs)
  from Cons.prems(1) obtain s1 where s1: "body a s = Some s1" "for_each body xs s1 = Some s'"
    by (auto split: option.splits)
  have p1: "P s1" using Cons.prems(3)[OF _ Cons.prems(2) s1(1)] by simp
  show ?case
  proof (rule Cons.IH[OF s1(2) p1])
    fix b t t'
    assume "b \<in> set xs" "P t" "body b t = Some t'"
    then show "P t'" using Cons.prems(3)[of b t t'] by simp
  qed
qed

lemma place_dot_closed:
  assumes "place_dot random_spacing rnd image_size radius_inner ring_thickness dot_radius
             num_dots angle st = Some st'"
    and "\<And>a img. Q img \<Longrightarrow> Q (stamp_dot image_size dot_radius
             (dot_x (image_size div 2) radius_inner ring_thickness a)
             (dot_y (image_size div 2) radius_inner ring_thickness a) img)"
    and "Q (fst st)"
  shows "Q (fst st')"
  using assms(1,3)
  by (auto simp: place_dot_def Let_def assms(2) split: if_splits option.splits)

lemma sieve_ring_closed:
  assumes "sieve_ring random_spacing rnd image_size radii k st = Some st'"
    and "\<And>a img. Q img \<Longrightarrow> Q (stamp_dot image_size
             (dot_radius_of (radii ! k - radii ! (k - 1)))
             (dot_x (image_size div 2) (radii ! (k - 1)) (radii ! k - radii ! (k - 1)) a)
             (dot_y (image_size div 2) (radii ! (k - 1)) (radii ! k - radii ! (k - 1)) a) img)"
    and "Q (fst st)"
  shows "Q (fst st')"
proof -
  from assms(1) show ?thesis
    unfolding sieve_ring_def Let_def
    by (rule for_each_invariant[where P = "\<lambda>s. Q (fst s)"])
       (use assms(2,3) in \<open>auto elim: place_dot_closed\<close>)
qed

lemma photon_sieve_result:
  assumes "photon_sieve random_spacing rnd image_size radii num_rings = Some (Inr m)"
  shows "\<exists>st. for_each (sieve_ring random_spacing rnd image_size radii)
                 (filter odd [1..<nat num_rings])
                 (clear_center image_size (radii ! 0) (\<lambda>y x. 0), 0) = Some st
           \<and> 0 < image_size
           \<and> m = \<lparr>side = image_size,
                   pixels = (\<lambda>y x. if on_border image_size y x then 0 else fst st y x)\<rparr>"
  using assms
  by (auto simp: photon_sieve_def np_zeros_def set_border_def on_border_def
      split: if_splits option.splits sum.splits)

lemma stamp_keeps_clear:
  assumes "scaled_ok image_size radii" "0 < k" "k < length radii"
    and "clear_within (image_size div 2) (radii ! 0 - 2) img"
  shows "clear_within (image_size div 2) (radii ! 0 - 2)
           (stamp_dot image_size (dot_radius_of (radii ! k - radii ! (k - 1)))
             (dot_x (image_size div 2) (radii ! (k - 1)) (radii ! k - radii ! (k - 1)) a)
             (dot_y (image_size div 2) (radii ! (k - 1)) (radii ! k - radii ! (k - 1)) a) img)"
  unfolding clear_within_def
proof (intro allI impI)
  fix y x
  let ?st = "stamp_dot image_size (dot_radius_of (radii ! k - radii ! (k - 1)))
             (dot_x (image_size div 2) (radii ! (k - 1)) (radii ! k - radii ! (k - 1)) a)
             (dot_y (image_size div 2) (radii ! (k - 1)) (radii ! k - radii ! (k - 1)) a) img"
  assume nz: "?st y x \<noteq> 0"
  show "radii ! 0 - 2 < distance (image_size div 2) y x"
  proof (cases "?st y x = img y x")
    case True
    then show ?thesis using nz assms(4) by (simp add: clear_within_def)
  next
    case False
    then show ?thesis by (rule stamp_far[OF assms(1-3)])
  qed
qed

lemma sieve_clear_within:
  assumes "scaled_ok image_size radii" "nat num_rings \<le> length radii"
    and "photon_sieve random_spacing rnd image_size radii num_rings = Some (Inr m)"
  shows "side m = image_size"
    and "on_border image_size y x \<Longrightarrow> pixels m y x = 0"
    and "distance (image_size div 2) y x \<le> radii ! 0 - 2 \<Longrightarrow> pixels m y x = 0"
proof -
  obtain st where st: "for_each (sieve_ring random_spacing rnd image_size radii)
                 (filter odd [1..<nat num_rings])
                 (clear_center image_size (radii ! 0) (\<lambda>y x. 0), 0) = Some st"
    and m: "m = \<lparr>side = image_size,
                   pixels = (\<lambda>y x. if on_border image_size y x then 0 else fst st y x)\<rparr>"
    using photon_sieve_result[OF assms(3)] by blast
  have c0: "clear_center image_size (radii ! 0) (\<lambda>y x. 0) = (\<lambda>y x. 0)"
    by (simp add: clear_center_def)
  have "clear_within (image_size div 2) (radii ! 0 - 2) (fst st)"
  proof (rule for_each_invariant[OF st,
        where P = "\<lambda>s. clear_within (image_size div 2) (radii ! 0 - 2) (fst s)"])
    show "clear_within (image_size div 2) (radii ! 0 - 2)
        (fst (clear_center image_size (radii ! 0) (\<lambda>y x. 0), 0::nat))"
      by (simp add: c0 clear_within_def)
  next
    fix k s s'
    assume k: "k \<in> set (filter odd [1..<nat num_rings])"
      and P: "clear_within (image_size div 2) (radii ! 0 - 2) (fst s)"
      and r: "sieve_ring random_spacing rnd image_size radii k s = Some s'"
    have k1: "0 < k" "k < length radii" using k assms(2) by auto
    show "clear_within (image_size div 2) (radii ! 0 - 2) (fst s')"
      by (rule sieve_ring_closed[where Q = "clear_within (image_size div 2) (radii ! 0 - 2)",
            OF r _ P])
         (rule stamp_keeps_clear[OF assms(1) k1])
  qed
  then have cw: "fst st y x \<noteq> 0 \<Longrightarrow> radii ! 0 - 2 < distance (image_size div 2) y x"
    by (simp add: clear_within_def)
  show "side m = image_size" by (simp add: m)
  show "on_border image_size y x \<Longrightarrow> pixels m y x = 0" by (simp add: m)
  show "distance (image_size div 2) y x \<le> radii ! 0 - 2 \<Longrightarrow> pixels m y x = 0"
    using cw by (auto simp: m)
qed

subsection \<open>The innermost disk of the random sieve\<close>

text \<open>
  C10 (amended).  For valid parameters and any random source, a mask returned by the
  random photon sieve has its border at 0 and every pixel whose distance from the centre
  is at most \<open>radii[0] - 2\<close> at 0.
\<close>

theorem sieve_inner_disk:
  assumes "0 < wavelength" "0 < focal_length" "2 \<le> num_rings"
    and "canvas (ring_radii wavelength focal_length num_rings) = Inr (image_size, radii)"
    and "generate_photon_sieve wavelength focal_length num_rings True rnd = Some (Inr m)"
  shows "side m = image_size
       \<and> (\<forall>y x. in_canvas image_size y x \<longrightarrow>
            (on_border image_size y x \<longrightarrow> pixels m y x = 0)
          \<and> (distance (image_size div 2) y x \<le> radii ! 0 - 2 \<longrightarrow> pixels m y x = 0))"
proof -
  have v: "valid_radii (ring_radii wavelength focal_length num_rings)"
    by (rule valid_ring_radii[OF assms(1-3)])
  have ok: "scaled_ok image_size radii" by (rule canvas_scaled_ok[OF v assms(4)])
  have "length radii = length (ring_radii wavelength focal_length num_rings)"
    by (subst canvas_valid_eq(2)[OF v assms(4)]) simp
  then have len: "nat num_rings \<le> length radii" by (simp add: ring_radii_def)
  have ps: "photon_sieve True rnd image_size radii num_rings = Some (Inr m)"
    using assms(5) no_nan[OF assms(1,2), of num_rings]
    by (simp add: generate_photon_sieve_def assms(4))
  show ?thesis using sieve_clear_within[OF ok len ps] by blast
qed

text \<open>
  The innermost disk itself is not left open: in the run with wavelength 14, focal
  length 120/7, two rings and the random source \<open>example_rng\<close> the pixel \<open>(y, x) = (23, 38)\<close>
  is at distance 15 from the centre, inside the first radius 391/26, and it is opaque.
\<close>

theorem sieve_inner_disk_counterexample:
  "canvas (ring_radii 14 (120 / 7) 2) = Inr (46, [391 / 26, 23])
   \<and> generate_photon_sieve 14 (120 / 7) 2 True example_rng = Some (Inr example_sieve)
   \<and> distance (46 div 2) 23 38 \<le> [391 / 26, 23] ! 0
   \<and> pixels example_sieve 23 38 = 1"
proof -
  have "distance (46 div 2) 23 38 = 15"
    by (simp add: distance_def sqrt_sq[of 15])
  then show ?thesis
    by (simp add: radii_example canvas_example example_generate example_pixels)
qed

theorem sieve_inner_disk_witness:
  "(0::real) < 14 \<and> (0::real) < 120 / 7 \<and> (2::int) \<le> 2
   \<and> canvas (ring_radii 14 (120 / 7) 2) = Inr (46, [391 / 26, 23])
   \<and> generate_photon_sieve 14 (120 / 7) 2 True example_rng = Some (Inr example_sieve)
   \<and> side example_sieve = 46
   \<and> in_canvas 46 23 30 \<and> distance (46 div 2) 23 30 \<le> [391 / 26, 23] ! 0 - 2
   \<and> pixels example_sieve 23 30 = 0
   \<and> in_canvas 46 23 45 \<and> on_border 46 23 45 \<and> pixels example_sieve 23 45 = 0"
proof -
  have h: "(0::real) < 14" "(0::real) < 120 / 7" "(2::int) \<le> 2" by simp_all
  have c: "canvas (ring_radii 14 (120 / 7) 2) = Inr (46, [391 / 26, 23])"
    by (simp add: radii_example canvas_example)
  note t = sieve_inner_disk[OF h c example_generate]
  have i: "in_canvas 46 23 30" "in_canvas 46 23 45" "on_border 46 23 45"
    by (simp_all add: in_canvas_def on_border_def)
  have "distance (46 div 2) 23 30 = 7" by (simp add: distance_def sqrt_sq[of 7])
  then have d: "distance (46 div 2) 23 30 \<le> [391 / 26, 23] ! 0 - 2" by simp
  show ?thesis using h c example_generate t i d by blast
qed

subsection \<open>Collision avoidance and disk stamping\<close>







text \<open>
  C8.  The stamped disk is not the set of canvas pixels within \<open>dot_radius\<close> of the
  centre.  For the centre \<open>(x, y) = (48, 26)\<close> and radius 4 on the 53 by 53 canvas the pixel
  \<open>(48, 30)\<close>, at distance 4, stays 0 while \<open>(48, 22)\<close> is set; for the centre \<open>(2, 26)\<close>,
  cut by the left edge, the pixel \<open>(0, 23)\<close> inside the disk stays 0 and the pixel
  \<open>(5, 29)\<close> outside the disk is set.
\<close>

theorem stamp_dot_misses:
  "in_canvas 53 30 48 \<and> (30 - 26)\<^sup>2 + (48 - 48)\<^sup>2 \<le> (4::int)\<^sup>2
   \<and> stamp_dot 53 4 48 26 blank_image 30 48 = 0
   \<and> stamp_dot 53 4 48 26 blank_image 22 48 = 1
   \<and> in_canvas 53 23 0 \<and> (23 - 26)\<^sup>2 + (0 - 2)\<^sup>2 \<le> (4::int)\<^sup>2
   \<and> stamp_dot 53 4 2 26 blank_image 23 0 = 0
   \<and> (4::int)\<^sup>2 < (29 - 26)\<^sup>2 + (5 - 2)\<^sup>2
   \<and> stamp_dot 53 4 2 26 blank_image 29 5 = 1"
  by (simp add: in_canvas_def stamp_dot_def disk_mask_def blank_image_def)

end
